theory Spec2Isabelle
  imports Complex_Main
begin

section \<open>Python strings\<close>

text \<open>
  A Python \<open>str\<close> is modelled as a \<open>string\<close> whose characters are ASCII code points.
  The three string operations the scripts rely on are \<open>str.strip\<close>, \<open>str.upper\<close> /
  \<open>str.lower\<close> and \<open>re.sub(r'\s+', ' ', _)\<close>.  On ASCII, \<open>str.strip()\<close> and the
  regular expression class \<open>\s\<close> agree on what whitespace is: the code points
  9 to 13, 28 to 31 and 32.
\<close>

definition is_space :: "char \<Rightarrow> bool" where
  "is_space c = (let n = (of_char c :: nat) in (9 \<le> n \<and> n \<le> 13) \<or> (28 \<le> n \<and> n \<le> 32))"

definition upper_char :: "char \<Rightarrow> char" where
  "upper_char c = (let n = (of_char c :: nat) in if 97 \<le> n \<and> n \<le> 122 then char_of (n - 32) else c)"

definition lower_char :: "char \<Rightarrow> char" where
  "lower_char c = (let n = (of_char c :: nat) in if 65 \<le> n \<and> n \<le> 90 then char_of (n + 32) else c)"

definition upper :: "string \<Rightarrow> string" where
  "upper s = map upper_char s"

definition lower :: "string \<Rightarrow> string" where
  "lower s = map lower_char s"

definition strip :: "string \<Rightarrow> string" where
  "strip s = rev (dropWhile is_space (rev (dropWhile is_space s)))"

text \<open>\<open>re.sub(r'\s+', ' ', s)\<close>: every maximal run of whitespace becomes one space.\<close>

function collapse_ws :: "string \<Rightarrow> string" where
  "collapse_ws [] = []"
| "collapse_ws (c # cs) =
     (if is_space c then CHR '' '' # collapse_ws (dropWhile is_space cs)
      else c # collapse_ws cs)"
  by pat_completeness auto
termination
  by (relation "measure length") (auto simp: length_dropWhile_le less_Suc_eq_le)

text \<open>\<open>s.replace(a, b)\<close> for one-character \<open>a\<close> and \<open>b\<close>.\<close>

definition replace_char :: "char \<Rightarrow> char \<Rightarrow> string \<Rightarrow> string" where
  "replace_char a b s = map (\<lambda>c. if c = a then b else c) s"

definition startswith :: "string \<Rightarrow> string \<Rightarrow> bool" where
  "startswith s p = (take (length p) s = p)"

definition endswith :: "string \<Rightarrow> string \<Rightarrow> bool" where
  "endswith s p = (length p \<le> length s \<and> drop (length s - length p) s = p)"

text \<open>\<open>str(n)\<close> for a Python int: decimal digits, with a minus sign when negative.\<close>

definition digit_char :: "nat \<Rightarrow> char" where
  "digit_char d = char_of (48 + d)"

fun str_nat :: "nat \<Rightarrow> string" where
  "str_nat n = (if n < 10 then [digit_char n] else str_nat (n div 10) @ [digit_char (n mod 10)])"

declare str_nat.simps [simp del]

definition str_int :: "int \<Rightarrow> string" where
  "str_int i = (if i < 0 then CHR ''-'' # str_nat (nat (- i)) else str_nat (nat i))"

text \<open>\<open>os.path.join(a, b)\<close> on a POSIX system.\<close>

definition path_join :: "string \<Rightarrow> string \<Rightarrow> string" where
  "path_join a b =
     (if startswith b ''/'' then b
      else if a = [] \<or> endswith a ''/'' then a @ b
      else a @ ''/'' @ b)"

section \<open>The fetcher (download\_data.py)\<close>

definition YEARS :: "nat list" where
  "YEARS = [2018 ..< 2025]"

definition BOROUGHS :: "string list" where
  "BOROUGHS = [''manhattan'', ''bronx'', ''brooklyn'', ''queens'', ''staten_island'']"

definition BASE_URL :: string where
  "BASE_URL = ''https://www.nyc.gov/assets/finance/downloads/pdf/rolling_sales/annualized-sales/''"

definition OUTPUT_DIR :: string where
  "OUTPUT_DIR = path_join ''data'' ''raw''"

text \<open>
  The local variables of one iteration of the main loop, as they stand when
  \<open>download_file(file_url, local_filepath)\<close> is called.
\<close>

record fetch_vars =
  file_borough_name :: string
  filename :: string
  file_url :: string
  local_filepath :: string

definition loop_body :: "nat \<Rightarrow> string \<Rightarrow> fetch_vars" where
  "loop_body year borough =
     (let fbn0 = replace_char CHR ''_'' CHR ''-'' borough;
          fbn = (if borough = ''staten_island'' then ''staten-island'' else fbn0);
          fname = str_nat year @ ''_'' @ borough @ ''.xlsx'';
          url = BASE_URL @ str_nat year @ ''/'' @ fname;
          path = path_join OUTPUT_DIR fname
      in \<lparr>file_borough_name = fbn, filename = fname, file_url = url, local_filepath = path\<rparr>)"

text \<open>The arguments of every call of \<open>download_file\<close>, in the order the loop makes them.\<close>

definition download_calls :: "(string \<times> string) list" where
  "download_calls =
     concat (map (\<lambda>year. map (\<lambda>borough.
        (file_url (loop_body year borough), local_filepath (loop_body year borough))) BOROUGHS) YEARS)"

section \<open>Cells, exceptions and the Python runtime\<close>

text \<open>
  A cell is one value held by a pandas DataFrame that was read from a spreadsheet:
  Python \<open>None\<close>, the float \<open>nan\<close>, pandas' \<open>NaT\<close>, a \<open>str\<close>, a number (an
  \<open>int\<close>, or a finite \<open>float\<close> given by its value) or a timestamp (nanoseconds
  since the epoch).  The first three are the missing markers: \<open>pd.isna\<close> holds of
  exactly them.
\<close>

datatype number = PyInt int | PyFloat rat

datatype cell = PyNone | NaN | NaT | Str string | Number number | Stamp int

fun isna :: "cell \<Rightarrow> bool" where
  "isna PyNone = True"
| "isna NaN = True"
| "isna NaT = True"
| "isna _ = False"

datatype exc = ValueError | TypeError | KeyError | InvalidIndexError | OtherError string

text \<open>
  What the scripts take from Python and pandas without defining it: the text of a
  float and of a timestamp, and the scalar parsers behind \<open>pd.to_numeric\<close> and
  \<open>pd.to_datetime\<close>, each answering \<open>None\<close> for a value it cannot parse.
\<close>

record runtime =
  str_float :: "rat \<Rightarrow> string"
  str_stamp :: "int \<Rightarrow> string"
  parse_numeric :: "cell \<Rightarrow> number option"
  parse_datetime :: "cell \<Rightarrow> int option"

text \<open>\<open>str(x)\<close> of a cell.\<close>

fun py_str :: "runtime \<Rightarrow> cell \<Rightarrow> string" where
  "py_str rt PyNone = ''None''"
| "py_str rt NaN = ''nan''"
| "py_str rt NaT = ''NaT''"
| "py_str rt (Str s) = s"
| "py_str rt (Number (PyInt i)) = str_int i"
| "py_str rt (Number (PyFloat q)) = str_float rt q"
| "py_str rt (Stamp t) = str_stamp rt t"

text \<open>
  One value under \<open>pd.to_numeric(_, errors='coerce')\<close> and under
  \<open>pd.to_datetime(_, errors='coerce')\<close>: a missing value stays missing, a value of
  the target kind is kept, anything else goes through the parser and becomes the
  missing marker of the target kind when the parser rejects it.
\<close>

fun to_numeric_value :: "runtime \<Rightarrow> cell \<Rightarrow> cell" where
  "to_numeric_value rt PyNone = NaN"
| "to_numeric_value rt NaN = NaN"
| "to_numeric_value rt NaT = NaN"
| "to_numeric_value rt (Number n) = Number n"
| "to_numeric_value rt v = (case parse_numeric rt v of Some n \<Rightarrow> Number n | None \<Rightarrow> NaN)"

fun to_datetime_value :: "runtime \<Rightarrow> cell \<Rightarrow> cell" where
  "to_datetime_value rt PyNone = NaT"
| "to_datetime_value rt NaN = NaT"
| "to_datetime_value rt NaT = NaT"
| "to_datetime_value rt (Stamp t) = Stamp t"
| "to_datetime_value rt v = (case parse_datetime rt v of Some t \<Rightarrow> Stamp t | None \<Rightarrow> NaT)"

section \<open>DataFrames\<close>

text \<open>
  A DataFrame is its index length and its columns in order, each a label with its
  values.  Labels may repeat, as they may in pandas.
\<close>

record 'l frame =
  nrows :: nat
  cols :: "('l \<times> cell list) list"

definition labels :: "'l frame \<Rightarrow> 'l list" where
  "labels df = map fst (cols df)"


definition row_at :: "'l frame \<Rightarrow> nat \<Rightarrow> cell list" where
  "row_at df i = map (\<lambda>lc. snd lc ! i) (cols df)"

text \<open>
  \<open>df[key]\<close> for one label: a Series when one column carries the label, a DataFrame
  of all the columns that carry it when several do, \<open>KeyError\<close> when none does.
\<close>

datatype 'l selection = Series "cell list" | DataFrame "'l frame"

definition getitem :: "'l frame \<Rightarrow> 'l \<Rightarrow> exc + 'l selection" where
  "getitem df key =
     (case filter (\<lambda>lc. fst lc = key) (cols df) of
        [] \<Rightarrow> Inl KeyError
      | [lc] \<Rightarrow> Inr (Series (snd lc))
      | cs \<Rightarrow> Inr (DataFrame \<lparr>nrows = nrows df, cols = cs\<rparr>))"

text \<open>
  \<open>df[keys]\<close> for a list of labels: for each key in turn, every column that carries
  it; \<open>KeyError\<close> when a key labels no column.
\<close>

definition getitem_list :: "'l frame \<Rightarrow> 'l list \<Rightarrow> exc + 'l frame" where
  "getitem_list df keys =
     (if list_all (\<lambda>k. k \<in> set (labels df)) keys
      then Inr \<lparr>nrows = nrows df,
                cols = concat (map (\<lambda>k. filter (\<lambda>lc. fst lc = k) (cols df)) keys)\<rparr>
      else Inl KeyError)"

text \<open>
  \<open>df[key] = values\<close>: a new last column when no column carries the label, else
  the values replace those of every column that carries it.
\<close>

definition setitem :: "'l frame \<Rightarrow> 'l \<Rightarrow> cell list \<Rightarrow> 'l frame" where
  "setitem df key vals =
     (if key \<in> set (labels df)
      then df\<lparr>cols := map (\<lambda>lc. if fst lc = key then (fst lc, vals) else lc) (cols df)\<rparr>
      else df\<lparr>cols := cols df @ [(key, vals)]\<rparr>)"

text \<open>\<open>pd.to_numeric(x, errors='coerce')\<close>: a two-dimensional argument is a \<open>TypeError\<close>.\<close>

definition to_numeric :: "runtime \<Rightarrow> 'l selection \<Rightarrow> exc + cell list" where
  "to_numeric rt x =
     (case x of Series vs \<Rightarrow> Inr (map (to_numeric_value rt) vs) | DataFrame _ \<Rightarrow> Inl TypeError)"

text \<open>
  \<open>pd.to_datetime(x, errors='coerce')\<close>: a DataFrame argument is assembled from
  year, month and day columns, which fails with \<open>ValueError\<close> on repeated labels.
\<close>

definition to_datetime :: "runtime \<Rightarrow> 'l selection \<Rightarrow> exc + cell list" where
  "to_datetime rt x =
     (case x of Series vs \<Rightarrow> Inr (map (to_datetime_value rt) vs) | DataFrame _ \<Rightarrow> Inl ValueError)"

text \<open>\<open>df.dropna(how='all')\<close>: the rows that hold at least one value that is not missing.\<close>

definition kept_rows :: "'l frame \<Rightarrow> nat list" where
  "kept_rows df = filter (\<lambda>i. \<not> list_all isna (row_at df i)) [0 ..< nrows df]"

definition dropna_all :: "'l frame \<Rightarrow> 'l frame" where
  "dropna_all df =
     (let keep = kept_rows df
      in \<lparr>nrows = length keep, cols = map (\<lambda>lc. (fst lc, map ((!) (snd lc)) keep)) (cols df)\<rparr>)"

section \<open>The normalizer (process\_sales\_data.py)\<close>

definition CANONICAL_COLUMNS :: "string list" where
  "CANONICAL_COLUMNS =
     [''borough'', ''neighborhood'', ''building_class_category'', ''tax_class_at_present'',
      ''block'', ''lot'', ''easement'', ''building_class_at_present'', ''address'',
      ''apartment_number'', ''zip_code'', ''residential_units'', ''commercial_units'',
      ''total_units'', ''land_square_feet'', ''gross_square_feet'', ''year_built'',
      ''tax_class_at_time_of_sale'', ''building_class_at_time_of_sale'',
      ''sale_price'', ''sale_date'']"

definition COLUMN_MAP :: "(string \<times> string) list" where
  "COLUMN_MAP =
     [(''borough'', ''borough''),
      (''neighborhood'', ''neighborhood''),
      (''building class category'', ''building_class_category''),
      (''tax class as of final roll 18/19'', ''tax_class_at_present''),
      (''tax class at present'', ''tax_class_at_present''),
      (''block'', ''block''),
      (''lot'', ''lot''),
      (''ease-ment'', ''easement''),
      (''building class as of final roll 18/19'', ''building_class_at_present''),
      (''building class at present'', ''building_class_at_present''),
      (''address'', ''address''),
      (''apartment number'', ''apartment_number''),
      (''zip code'', ''zip_code''),
      (''residential units'', ''residential_units''),
      (''commercial units'', ''commercial_units''),
      (''total units'', ''total_units''),
      (''land square feet'', ''land_square_feet''),
      (''gross square feet'', ''gross_square_feet''),
      (''year built'', ''year_built''),
      (''tax class at time of sale'', ''tax_class_at_time_of_sale''),
      (''building class at time of sale'', ''building_class_at_time_of_sale''),
      (''sale price'', ''sale_price''),
      (''sale date'', ''sale_date'')]"

definition numeric_cols :: "string list" where
  "numeric_cols =
     [''sale_price'', ''gross_square_feet'', ''land_square_feet'', ''residential_units'',
      ''commercial_units'', ''total_units'', ''year_built'', ''zip_code'', ''block'', ''lot'']"

text \<open>
  What the normalizer reads and writes.  \<open>read_excel_rows path\<close> is
  \<open>pd.read_excel(path, header=None)\<close> as a list of rows (the caller's \<open>nrows\<close>
  cuts it), \<open>read_excel_table path k\<close> is \<open>pd.read_excel(path, skiprows=k)\<close>; each
  operation either answers or raises.
\<close>

record env =
  project_root :: string
  makedirs :: "string \<Rightarrow> exc option"
  listdir :: "string \<Rightarrow> exc + string list"
  read_excel_rows :: "string \<Rightarrow> exc + cell list list"
  read_excel_table :: "string \<Rightarrow> nat \<Rightarrow> exc + cell frame"
  to_parquet :: "string frame \<Rightarrow> string \<Rightarrow> exc option"

text \<open>The lines the normalizer prints, the formatted text left out.\<close>

datatype msg =
    Processing string
  | CouldNotProcess string exc
  | FoundRows nat
  | NoExcelFiles string
  | NoDataProcessed
  | Combining
  | TotalRows nat
  | Saving string
  | Complete

subsection \<open>find\_header\_row\<close>

definition cell_matches :: "runtime \<Rightarrow> string \<Rightarrow> cell \<Rightarrow> bool" where
  "cell_matches rt keyword c = (upper (strip (py_str rt c)) = keyword)"

text \<open>The loop over \<open>df_preview.iterrows()\<close>, \<open>i\<close> the index of the first row of the list.\<close>

fun scan_rows :: "runtime \<Rightarrow> string \<Rightarrow> nat \<Rightarrow> cell list list \<Rightarrow> nat option" where
  "scan_rows rt keyword i [] = None"
| "scan_rows rt keyword i (row # rows) =
     (if list_ex (cell_matches rt keyword) row then Some i
      else scan_rows rt keyword (Suc i) rows)"

definition find_header_row :: "runtime \<Rightarrow> env \<Rightarrow> string \<Rightarrow> string \<Rightarrow> exc + nat" where
  "find_header_row rt e file_path keyword =
     (case read_excel_rows e file_path of
        Inl x \<Rightarrow> Inl x
      | Inr sheet \<Rightarrow>
          (case scan_rows rt keyword 0 (take 10 sheet) of
             Some i \<Rightarrow> Inr i
           | None \<Rightarrow> Inl ValueError))"

subsection \<open>clean\_column\_names\<close>

definition clean_name :: "runtime \<Rightarrow> cell \<Rightarrow> string" where
  "clean_name rt col = lower (strip (collapse_ws (py_str rt col)))"

text \<open>\<open>df.rename(columns=column_map)\<close> on one label.\<close>

definition rename :: "(string \<times> string) list \<Rightarrow> string \<Rightarrow> string" where
  "rename column_map l = (case map_of column_map l of Some c \<Rightarrow> c | None \<Rightarrow> l)"

definition clean_column_names :: "runtime \<Rightarrow> cell frame \<Rightarrow> (string \<times> string) list \<Rightarrow> string frame" where
  "clean_column_names rt df column_map =
     \<lparr>nrows = nrows df,
      cols = map (\<lambda>lc. (rename column_map (clean_name rt (fst lc)), snd lc)) (cols df)\<rparr>"

subsection \<open>process\_sales\_file\<close>

text \<open>Step 4: \<open>for col in CANONICAL_COLUMNS: if col not in df.columns: df[col] = None\<close>.\<close>

fun ensure_columns :: "string list \<Rightarrow> string frame \<Rightarrow> string frame" where
  "ensure_columns [] df = df"
| "ensure_columns (col # rest) df =
     ensure_columns rest
       (if col \<in> set (labels df) then df else setitem df col (replicate (nrows df) PyNone))"

text \<open>Step 5, first loop: \<open>for col in numeric_cols: df[col] = pd.to_numeric(df[col], errors='coerce')\<close>.\<close>

definition coerce_numeric :: "runtime \<Rightarrow> string frame \<Rightarrow> string \<Rightarrow> exc + string frame" where
  "coerce_numeric rt df col =
     (case getitem df col of
        Inl x \<Rightarrow> Inl x
      | Inr sel \<Rightarrow> (case to_numeric rt sel of Inl x \<Rightarrow> Inl x | Inr vs \<Rightarrow> Inr (setitem df col vs)))"

fun coerce_numeric_cols :: "runtime \<Rightarrow> string list \<Rightarrow> string frame \<Rightarrow> exc + string frame" where
  "coerce_numeric_cols rt [] df = Inr df"
| "coerce_numeric_cols rt (col # rest) df =
     (case coerce_numeric rt df col of Inl x \<Rightarrow> Inl x | Inr df' \<Rightarrow> coerce_numeric_cols rt rest df')"

text \<open>\<open>df['sale_date'] = pd.to_datetime(df['sale_date'], errors='coerce')\<close>.\<close>

definition coerce_datetime :: "runtime \<Rightarrow> string frame \<Rightarrow> string \<Rightarrow> exc + string frame" where
  "coerce_datetime rt df col =
     (case getitem df col of
        Inl x \<Rightarrow> Inl x
      | Inr sel \<Rightarrow> (case to_datetime rt sel of Inl x \<Rightarrow> Inl x | Inr vs \<Rightarrow> Inr (setitem df col vs)))"

text \<open>
  Steps 3 to 5 of \<open>process_sales_file\<close>, on the table that \<open>pd.read_excel\<close> loaded:
  the table as it stands when \<open>dropna\<close> is reached, or the exception raised before.
\<close>

definition canonical_table :: "runtime \<Rightarrow> cell frame \<Rightarrow> exc + string frame" where
  "canonical_table rt raw =
     (let df = clean_column_names rt raw COLUMN_MAP;
          df = ensure_columns CANONICAL_COLUMNS df
      in case getitem_list df CANONICAL_COLUMNS of
           Inl x \<Rightarrow> Inl x
         | Inr df \<Rightarrow>
             (case coerce_numeric_cols rt numeric_cols df of
                Inl x \<Rightarrow> Inl x
              | Inr df \<Rightarrow> coerce_datetime rt df ''sale_date''))"

text \<open>Steps 3 to 6: step 6 is \<open>df.dropna(how='all', inplace=True)\<close>.\<close>

definition standardize :: "runtime \<Rightarrow> cell frame \<Rightarrow> exc + string frame" where
  "standardize rt raw =
     (case canonical_table rt raw of Inl x \<Rightarrow> Inl x | Inr df \<Rightarrow> Inr (dropna_all df))"

text \<open>
  \<open>process_sales_file\<close>: what it prints, and either the exception that leaves it or
  its return value, \<open>None\<close> for a file it skips.  Only a \<open>ValueError\<close> raised inside
  \<open>find_header_row\<close> is caught.
\<close>

definition process_sales_file :: "runtime \<Rightarrow> env \<Rightarrow> string \<Rightarrow> msg list \<times> (exc + string frame option)" where
  "process_sales_file rt e file_path =
     (case find_header_row rt e file_path ''BOROUGH'' of
        Inl x \<Rightarrow>
          (if x = ValueError
           then ([Processing file_path, CouldNotProcess file_path x], Inr None)
           else ([Processing file_path], Inl x))
      | Inr header_row_index \<Rightarrow>
          (case read_excel_table e file_path header_row_index of
             Inl x \<Rightarrow> ([Processing file_path], Inl x)
           | Inr raw \<Rightarrow>
               (case standardize rt raw of
                  Inl x \<Rightarrow> ([Processing file_path], Inl x)
                | Inr df \<Rightarrow> ([Processing file_path, FoundRows (nrows df)], Inr (Some df)))))"

subsection \<open>main\<close>

text \<open>
  \<open>pd.concat(dfs, ignore_index=True)\<close>.  Frames whose label lists are equal are
  stacked column by column.  Otherwise the frames are aligned on the union of their
  labels, in order of first appearance, a frame that lacks a label contributing
  \<open>nan\<close>; the alignment raises \<open>InvalidIndexError\<close> when a frame repeats a label.
  An empty list is a \<open>ValueError\<close>.
\<close>

definition union_labels :: "'l list \<Rightarrow> 'l list" where
  "union_labels ls = fold (\<lambda>l acc. if l \<in> set acc then acc else acc @ [l]) ls []"

definition pd_concat :: "'l frame list \<Rightarrow> exc + 'l frame" where
  "pd_concat dfs =
     (case dfs of
        [] \<Rightarrow> Inl ValueError
      | d # ds \<Rightarrow>
          if list_all (\<lambda>df. labels df = labels d) ds
          then Inr \<lparr>nrows = sum_list (map nrows dfs),
                    cols = map (\<lambda>j. (labels d ! j, concat (map (\<lambda>df. snd (cols df ! j)) dfs)))
                             [0 ..< length (cols d)]\<rparr>
          else if list_all (\<lambda>df. distinct (labels df)) dfs
          then Inr \<lparr>nrows = sum_list (map nrows dfs),
                    cols = map (\<lambda>l. (l, concat (map (\<lambda>df.
                               (case map_of (cols df) l of
                                  Some vs \<Rightarrow> vs
                                | None \<Rightarrow> replicate (nrows df) NaN)) dfs)))
                             (union_labels (concat (map labels dfs)))\<rparr>
          else Inl InvalidIndexError)"

text \<open>
  \<open>df[col] = df[col].astype(str)\<close>: \<open>str\<close> is applied to every value of every column
  that carries the label, the missing ones included.
\<close>

definition astype_str :: "runtime \<Rightarrow> cell list \<Rightarrow> cell list" where
  "astype_str rt vs = map (\<lambda>v. Str (py_str rt v)) vs"

definition astype_str_column :: "runtime \<Rightarrow> 'l frame \<Rightarrow> 'l \<Rightarrow> exc + 'l frame" where
  "astype_str_column rt df col =
     (case getitem df col of
        Inl x \<Rightarrow> Inl x
      | Inr _ \<Rightarrow>
          Inr (df\<lparr>cols := map (\<lambda>lc. if fst lc = col then (fst lc, astype_str rt (snd lc)) else lc)
                             (cols df)\<rparr>))"

text \<open>\<open>[process_sales_file(f) for f in all_files]\<close>: the first exception ends the loop.\<close>

fun process_all :: "runtime \<Rightarrow> env \<Rightarrow> string list \<Rightarrow> msg list \<times> (exc + string frame option list)" where
  "process_all rt e [] = ([], Inr [])"
| "process_all rt e (f # fs) =
     (case process_sales_file rt e f of
        (out, Inl x) \<Rightarrow> (out, Inl x)
      | (out, Inr r) \<Rightarrow>
          (case process_all rt e fs of
             (out', Inl x) \<Rightarrow> (out @ out', Inl x)
           | (out', Inr rs) \<Rightarrow> (out @ out', Inr (r # rs))))"

definition raw_data_path :: "env \<Rightarrow> string" where
  "raw_data_path e = path_join (path_join (project_root e) ''data'') ''raw''"

definition processed_data_path :: "env \<Rightarrow> string" where
  "processed_data_path e = path_join (path_join (project_root e) ''data'') ''processed''"

definition output_file :: "env \<Rightarrow> string" where
  "output_file e = path_join (processed_data_path e) ''nyc_sales_combined.parquet''"

text \<open>
  \<open>main\<close>: what it prints, and either the exception that leaves it or the table it
  wrote to \<open>output_file\<close>, \<open>None\<close> when it returned without writing.
\<close>

definition main :: "runtime \<Rightarrow> env \<Rightarrow> msg list \<times> (exc + string frame option)" where
  "main rt e =
     (case makedirs e (processed_data_path e) of
        Some x \<Rightarrow> ([], Inl x)
      | None \<Rightarrow>
     (case listdir e (raw_data_path e) of
        Inl x \<Rightarrow> ([], Inl x)
      | Inr names \<Rightarrow>
     (let all_files = map (path_join (raw_data_path e))
                        (filter (\<lambda>f. endswith f ''.xlsx'' \<and> \<not> startswith f ''~'') names)
      in if all_files = [] then ([NoExcelFiles (raw_data_path e)], Inr None)
      else
     (case process_all rt e all_files of
        (out, Inl x) \<Rightarrow> (out, Inl x)
      | (out, Inr results) \<Rightarrow>
     (let all_dfs = concat (map (\<lambda>r. case r of None \<Rightarrow> [] | Some df \<Rightarrow> [df]) results)
      in if all_dfs = [] then (out @ [NoDataProcessed], Inr None)
      else
     (case pd_concat all_dfs of
        Inl x \<Rightarrow> (out @ [Combining], Inl x)
      | Inr master_df \<Rightarrow>
     (let out = out @ [Combining, TotalRows (nrows master_df)]
      in case astype_str_column rt master_df ''tax_class_at_present'' of
        Inl x \<Rightarrow> (out, Inl x)
      | Inr master_df \<Rightarrow>
     (case astype_str_column rt master_df ''apartment_number'' of
        Inl x \<Rightarrow> (out, Inl x)
      | Inr master_df \<Rightarrow>
     (case to_parquet e master_df (output_file e) of
        Some x \<Rightarrow> (out @ [Saving (output_file e)], Inl x)
      | None \<Rightarrow> (out @ [Saving (output_file e), Complete], Inr (Some master_df)))))))))))"

section \<open>Sample inputs\<close>

text \<open>
  Concrete inputs at which the theorems below are instantiated.  The sample runtime
  parses unsigned decimal integers and no dates; any other runtime would do.
\<close>

definition is_digit :: "char \<Rightarrow> bool" where
  "is_digit c = (let n = (of_char c :: nat) in 48 \<le> n \<and> n \<le> 57)"

definition sample_parse_numeric :: "cell \<Rightarrow> number option" where
  "sample_parse_numeric v =
     (case v of
        Str s \<Rightarrow>
          if s \<noteq> [] \<and> list_all is_digit s
          then Some (PyInt (int (foldl (\<lambda>a c. 10 * a + (of_char c - 48)) 0 s)))
          else None
      | _ \<Rightarrow> None)"

definition sample_runtime :: runtime where
  "sample_runtime =
     \<lparr>str_float = (\<lambda>q. ''0.5''), str_stamp = (\<lambda>t. ''2020-01-01 00:00:00''),
      parse_numeric = sample_parse_numeric, parse_datetime = (\<lambda>v. None)\<rparr>"

definition sample_env ::
  "string list \<Rightarrow> (string \<Rightarrow> exc + cell list list) \<Rightarrow> (string \<Rightarrow> nat \<Rightarrow> exc + cell frame) \<Rightarrow> env" where
  "sample_env names rows table =
     \<lparr>project_root = ''/srv/nyc'', makedirs = (\<lambda>d. None), listdir = (\<lambda>d. Inr names),
      read_excel_rows = rows, read_excel_table = table, to_parquet = (\<lambda>df f. None)\<rparr>"

text \<open>A sheet with \<open>k\<close> title rows above its header row.\<close>

definition sheet_with_header_at :: "nat \<Rightarrow> cell list list" where
  "sheet_with_header_at k =
     replicate k [Str ''Annualized sales'', NaN, NaN] @
     [[Str '' Borough '', Str ''Block'', Str ''Lot''],
      [Number (PyInt 1), Number (PyInt 7), Number (PyInt 22)]]"

definition empty_table :: "cell frame" where
  "empty_table = \<lparr>nrows = 0, cols = []\<rparr>"

definition env_header_at :: "nat \<Rightarrow> env" where
  "env_header_at k = sample_env [''a.xlsx''] (\<lambda>p. Inr (sheet_with_header_at k)) (\<lambda>p i. Inr empty_table)"

section \<open>Notions used to state the properties\<close>

text \<open>
  The labels of a loaded table after \<open>clean_column_names\<close>, the condition that no
  canonical field is named by two of them, the values the loaded table holds for a
  field (those of the first column named so, \<open>None\<close> throughout when there is
  none), the coercion step 5 applies to a field, and a frame given by its labels
  and the values of each.
\<close>

definition canon_labels :: "runtime \<Rightarrow> cell frame \<Rightarrow> string list" where
  "canon_labels rt raw = map (\<lambda>l. rename COLUMN_MAP (clean_name rt l)) (labels raw)"

definition unique_fields :: "runtime \<Rightarrow> cell frame \<Rightarrow> bool" where
  "unique_fields rt raw = distinct (filter (\<lambda>l. l \<in> set CANONICAL_COLUMNS) (canon_labels rt raw))"

definition source_column :: "runtime \<Rightarrow> cell frame \<Rightarrow> string \<Rightarrow> cell list" where
  "source_column rt raw field =
     (case map_of (cols (clean_column_names rt raw COLUMN_MAP)) field of
        Some vs \<Rightarrow> vs
      | None \<Rightarrow> replicate (nrows raw) PyNone)"

definition coerce_cell :: "runtime \<Rightarrow> string \<Rightarrow> cell \<Rightarrow> cell" where
  "coerce_cell rt field v =
     (if field \<in> set numeric_cols then to_numeric_value rt v
      else if field = ''sale_date'' then to_datetime_value rt v
      else v)"

definition frame_of :: "nat \<Rightarrow> 'l list \<Rightarrow> ('l \<Rightarrow> cell list) \<Rightarrow> 'l frame" where
  "frame_of n fs g = \<lparr>nrows = n, cols = map (\<lambda>f. (f, g f)) fs\<rparr>"



definition sample_table :: "cell frame" where
  "sample_table =
     \<lparr>nrows = 2,
      cols = [(Str ''BOROUGH'', [Number (PyInt 1), NaN]),
              (Str '' Sale  Price'', [Str ''1,200'', NaN]),
              (Str ''Block'', [Str ''1200'', NaN]),
              (Str ''Comment'', [Str ''corner lot'', NaN])]\<rparr>"






section \<open>Verified properties\<close>

subsection \<open>Strings and paths\<close>

lemma OUTPUT_DIR_eq: "OUTPUT_DIR = ''data/raw''"
  by (simp add: OUTPUT_DIR_def path_join_def startswith_def endswith_def)

lemma str_nat_not_Nil: "str_nat n \<noteq> []"
  by (subst str_nat.simps) simp

lemma hd_str_nat_digit: "hd (str_nat n) \<in> digit_char ` {0..<10}"
proof (induction n rule: str_nat.induct)
  case (1 n)
  show ?case
  proof (cases "n < 10")
    case True
    then show ?thesis by (subst str_nat.simps) simp
  next
    case False
    with 1 show ?thesis by (subst str_nat.simps) (simp add: str_nat_not_Nil)
  qed
qed

lemma hd_str_nat_not_slash: "hd (str_nat n) \<noteq> CHR ''/''"
proof -
  have "CHR ''/'' \<notin> digit_char ` {0..<10}"
  proof
    assume "CHR ''/'' \<in> digit_char ` {0..<10}"
    then obtain d where d: "d < 10" "digit_char d = CHR ''/''" by auto
    have "(of_char (digit_char d) :: nat) = (48 + d) mod 256"
      by (simp add: digit_char_def)
    with d show False by simp
  qed
  with hd_str_nat_digit[of n] show ?thesis by metis
qed

lemma path_join_file:
  "path_join OUTPUT_DIR (str_nat y @ rest) = ''data/raw/'' @ str_nat y @ rest"
proof -
  obtain c cs where "str_nat y = c # cs"
    using str_nat_not_Nil[of y] by (cases "str_nat y") auto
  moreover from this have "c \<noteq> CHR ''/''"
    using hd_str_nat_not_slash[of y] by simp
  ultimately show ?thesis
    by (simp add: OUTPUT_DIR_eq path_join_def startswith_def endswith_def)
qed

subsection \<open>The fetcher\<close>

text \<open>
  C8.  For every year and borough, the file name of the iteration is
  \<open>year_borough.xlsx\<close> with the borough exactly as \<open>BOROUGHS\<close> spells it (the
  underscore form), and both the URL and the local path are built from that file
  name.  The hyphenated name is computed (\<open>staten-island\<close> for \<open>staten_island\<close>)
  but occurs in neither: for Staten Island the file name keeps the underscore and
  differs from the one the hyphenated name would give.
\<close>

theorem fetch_targets_use_underscore_name:
  "filename (loop_body year borough) = str_nat year @ ''_'' @ borough @ ''.xlsx'' \<and>
   file_url (loop_body year borough) =
     BASE_URL @ str_nat year @ ''/'' @ str_nat year @ ''_'' @ borough @ ''.xlsx'' \<and>
   local_filepath (loop_body year borough) =
     ''data/raw/'' @ str_nat year @ ''_'' @ borough @ ''.xlsx'' \<and>
   file_borough_name (loop_body year ''staten_island'') = ''staten-island'' \<and>
   filename (loop_body year ''staten_island'') = str_nat year @ ''_staten_island.xlsx'' \<and>
   filename (loop_body year ''staten_island'') \<noteq>
     str_nat year @ ''_'' @ file_borough_name (loop_body year ''staten_island'') @ ''.xlsx''"
  by (simp add: loop_body_def Let_def path_join_file)

subsection \<open>The header locator\<close>

lemma scan_rows_Some:
  "scan_rows rt kw k rows = Some i \<longleftrightarrow>
     (k \<le> i \<and> i - k < length rows \<and> list_ex (cell_matches rt kw) (rows ! (i - k)) \<and>
      (\<forall>j < i - k. \<not> list_ex (cell_matches rt kw) (rows ! j)))"
proof (induction rows arbitrary: k)
  case Nil
  then show ?case by simp
next
  case (Cons row rows)
  show ?case
  proof (cases "list_ex (cell_matches rt kw) row")
    case True
    then show ?thesis by (auto simp: nth_Cons split: nat.splits)
  next
    case False
    have "scan_rows rt kw k (row # rows) = Some i \<longleftrightarrow> scan_rows rt kw (Suc k) rows = Some i"
      using False by simp
    also have "\<dots> \<longleftrightarrow> (Suc k \<le> i \<and> i - Suc k < length rows \<and>
        list_ex (cell_matches rt kw) (rows ! (i - Suc k)) \<and>
        (\<forall>j < i - Suc k. \<not> list_ex (cell_matches rt kw) (rows ! j)))"
      by (rule Cons.IH)
    also have "\<dots> \<longleftrightarrow> (k \<le> i \<and> i - k < length (row # rows) \<and>
        list_ex (cell_matches rt kw) ((row # rows) ! (i - k)) \<and>
        (\<forall>j < i - k. \<not> list_ex (cell_matches rt kw) ((row # rows) ! j)))"
      (is "?L \<longleftrightarrow> ?R")
    proof
      assume L: ?L
      then obtain m where m: "i - k = Suc m" "i - Suc k = m" by (cases "i - k") auto
      from L m False show ?R by (auto simp: nth_Cons split: nat.splits)
    next
      assume R: ?R
      with False have "i - k \<noteq> 0" by (auto intro!: Nat.gr0I)
      then obtain m where m: "i - k = Suc m" "i - Suc k = m" by (cases "i - k") auto
      from R m show ?L by (auto simp: nth_Cons split: nat.splits)
    qed
    finally show ?thesis .
  qed
qed

lemma scan_rows_None:
  "scan_rows rt kw k rows = None \<longleftrightarrow> (\<forall>row \<in> set rows. \<not> list_ex (cell_matches rt kw) row)"
  by (induction rows arbitrary: k) auto

text \<open>
  C3.  When the sheet can be read, \<open>find_header_row\<close> returns index \<open>i\<close> exactly
  when \<open>i\<close> is below 10, row \<open>i\<close> exists and holds a cell whose text, stripped and
  upper-cased, equals the keyword, and no earlier row holds such a cell; it raises
  \<open>ValueError\<close> exactly when none of the first 10 rows holds such a cell, whatever
  the rows from index 10 on hold; and it does one or the other.
\<close>

theorem find_header_row_window:
  assumes "read_excel_rows e p = Inr sheet"
  shows "(find_header_row rt e p kw = Inr i \<longleftrightarrow>
            i < 10 \<and> i < length sheet \<and>
            (\<exists>c \<in> set (sheet ! i). upper (strip (py_str rt c)) = kw) \<and>
            (\<forall>j < i. \<forall>c \<in> set (sheet ! j). upper (strip (py_str rt c)) \<noteq> kw)) \<and>
         (find_header_row rt e p kw = Inl ValueError \<longleftrightarrow>
            (\<forall>j. j < 10 \<and> j < length sheet \<longrightarrow>
               (\<forall>c \<in> set (sheet ! j). upper (strip (py_str rt c)) \<noteq> kw))) \<and>
         ((\<exists>k. find_header_row rt e p kw = Inr k) \<or> find_header_row rt e p kw = Inl ValueError)"
proof -
  let ?rows = "take 10 sheet"
  have fh: "find_header_row rt e p kw =
      (case scan_rows rt kw 0 ?rows of Some i \<Rightarrow> Inr i | None \<Rightarrow> Inl ValueError)"
    using assms by (simp add: find_header_row_def)
  have ex: "list_ex (cell_matches rt kw) row \<longleftrightarrow> (\<exists>c \<in> set row. upper (strip (py_str rt c)) = kw)"
    for row by (simp add: list_ex_iff cell_matches_def)
  have A: "find_header_row rt e p kw = Inr i \<longleftrightarrow> scan_rows rt kw 0 ?rows = Some i"
    by (simp add: fh split: option.splits)
  have B: "scan_rows rt kw 0 ?rows = Some i \<longleftrightarrow>
      i < 10 \<and> i < length sheet \<and>
      (\<exists>c \<in> set (sheet ! i). upper (strip (py_str rt c)) = kw) \<and>
      (\<forall>j < i. \<forall>c \<in> set (sheet ! j). upper (strip (py_str rt c)) \<noteq> kw)"
    unfolding scan_rows_Some ex by (auto simp: min_def)
  have C: "find_header_row rt e p kw = Inl ValueError \<longleftrightarrow> scan_rows rt kw 0 ?rows = None"
    by (simp add: fh split: option.splits)
  have D: "scan_rows rt kw 0 ?rows = None \<longleftrightarrow>
      (\<forall>j. j < 10 \<and> j < length sheet \<longrightarrow>
         (\<forall>c \<in> set (sheet ! j). upper (strip (py_str rt c)) \<noteq> kw))"
  proof -
    have "(\<forall>row \<in> set ?rows. P row) \<longleftrightarrow> (\<forall>j. j < 10 \<and> j < length sheet \<longrightarrow> P (sheet ! j))"
      for P :: "cell list \<Rightarrow> bool"
    proof (intro iffI allI impI ballI)
      fix j
      assume L: "\<forall>row \<in> set ?rows. P row" and j: "j < 10 \<and> j < length sheet"
      from j have "?rows ! j = sheet ! j" "j < length ?rows" by simp_all
      then have "sheet ! j \<in> set ?rows" by (metis nth_mem)
      with L show "P (sheet ! j)" by blast
    next
      fix row
      assume R: "\<forall>j. j < 10 \<and> j < length sheet \<longrightarrow> P (sheet ! j)" and "row \<in> set ?rows"
      then obtain j where "j < length ?rows" "?rows ! j = row" by (auto simp: in_set_conv_nth)
      with R show "P row" by auto
    qed
    from this[of "\<lambda>row. \<forall>c \<in> set row. upper (strip (py_str rt c)) \<noteq> kw"]
    show ?thesis unfolding scan_rows_None ex by simp
  qed
  have E: "(\<exists>k. find_header_row rt e p kw = Inr k) \<or> find_header_row rt e p kw = Inl ValueError"
    by (cases "scan_rows rt kw 0 ?rows") (simp_all add: fh)
  from A B C D E show ?thesis by simp
qed

theorem find_header_row_window_witness:
  "find_header_row sample_runtime (env_header_at 0) ''a.xlsx'' ''BOROUGH'' = Inr 0 \<and>
   find_header_row sample_runtime (env_header_at 9) ''a.xlsx'' ''BOROUGH'' = Inr 9 \<and>
   (\<exists>c \<in> set (sheet_with_header_at 9 ! 9). upper (strip (py_str sample_runtime c)) = ''BOROUGH'') \<and>
   find_header_row sample_runtime (env_header_at 10) ''a.xlsx'' ''BOROUGH'' = Inl ValueError \<and>
   (\<exists>c \<in> set (sheet_with_header_at 10 ! 10). upper (strip (py_str sample_runtime c)) = ''BOROUGH'')"
proof -
  have h: "read_excel_rows (env_header_at k) ''a.xlsx'' = Inr (sheet_with_header_at k)" for k
    by (simp add: env_header_at_def sample_env_def)
  have r0: "find_header_row sample_runtime (env_header_at 0) ''a.xlsx'' ''BOROUGH'' = Inr 0"
    by code_simp
  have r9: "find_header_row sample_runtime (env_header_at 9) ''a.xlsx'' ''BOROUGH'' = Inr 9"
    by code_simp
  have r10: "find_header_row sample_runtime (env_header_at 10) ''a.xlsx'' ''BOROUGH'' = Inl ValueError"
    by code_simp
  have m10: "\<exists>c \<in> set (sheet_with_header_at 10 ! 10). upper (strip (py_str sample_runtime c)) = ''BOROUGH''"
    by code_simp
  note W = find_header_row_window[OF h, where rt = sample_runtime and kw = "''BOROUGH''" and i = 9]
  note m9 = iffD1[OF W[THEN conjunct1] r9, THEN conjunct2, THEN conjunct2, THEN conjunct1]
  show ?thesis
    by (rule conjI[OF r0 conjI[OF r9 conjI[OF m9 conjI[OF r10 m10]]]])
qed

subsection \<open>Column names\<close>

lemma is_space_lower_char [simp]: "is_space (lower_char c) = is_space c"
proof (cases "65 \<le> (of_char c :: nat) \<and> (of_char c :: nat) \<le> 90")
  case True
  then have "(of_char (lower_char c) :: nat) = of_char c + 32"
    by (simp add: lower_char_def)
  with True show ?thesis by (simp add: is_space_def)
next
  case False
  then show ?thesis by (auto simp: lower_char_def)
qed

lemma lower_char_space [simp]: "lower_char CHR '' '' = CHR '' ''"
  by (simp add: lower_char_def)

lemma dropWhile_is_space_lower:
  "dropWhile is_space (map lower_char s) = map lower_char (dropWhile is_space s)"
  by (induction s) simp_all

lemma lower_collapse_ws: "lower (collapse_ws s) = collapse_ws (lower s)"
proof (induction s rule: collapse_ws.induct)
  case 1
  show ?case by (simp add: lower_def)
next
  case (2 c cs)
  then show ?case
    by (simp add: lower_def dropWhile_is_space_lower)
qed

lemma lower_strip: "lower (strip s) = strip (lower s)"
  by (simp add: lower_def strip_def rev_map dropWhile_is_space_lower)

lemma clean_via_lower: "lower (strip (collapse_ws s)) = strip (collapse_ws (lower s))"
  by (simp add: lower_strip lower_collapse_ws)

lemma collapse_ws_run:
  assumes "ws \<noteq> []" "list_all is_space ws"
  shows "collapse_ws (ws @ b) = CHR '' '' # collapse_ws (dropWhile is_space b)"
proof -
  from assms obtain w ws' where ws: "ws = w # ws'" "is_space w" "list_all is_space ws'"
    by (cases ws) auto
  then have "dropWhile is_space (ws' @ b) = dropWhile is_space b"
    by (simp add: dropWhile_append2 list_all_iff)
  with ws show ?thesis by simp
qed

lemma collapse_ws_inner_run:
  assumes "ws \<noteq> []" "list_all is_space ws" "ws' \<noteq> []" "list_all is_space ws'"
  shows "collapse_ws (a @ ws @ b) = collapse_ws (a @ ws' @ b)"
proof (induction a rule: collapse_ws.induct)
  case 1
  show ?case using assms by (simp add: collapse_ws_run)
next
  case (2 c cs)
  show ?case
  proof (cases "is_space c")
    case False
    with 2 show ?thesis by simp
  next
    case True
    show ?thesis
    proof (cases "list_all is_space cs")
      case True
      then have "dropWhile is_space (cs @ ws @ b) = dropWhile is_space b"
                "dropWhile is_space (cs @ ws' @ b) = dropWhile is_space b"
        using assms by (simp_all add: dropWhile_append2 list_all_iff)
      with \<open>is_space c\<close> show ?thesis by simp
    next
      case False
      then have "dropWhile is_space (cs @ ws @ b) = dropWhile is_space cs @ ws @ b"
                "dropWhile is_space (cs @ ws' @ b) = dropWhile is_space cs @ ws' @ b"
        by (auto simp: list_all_iff dropWhile_append1)
      with \<open>is_space c\<close> 2 show ?thesis by simp
    qed
  qed
qed

lemma is_space_space [simp]: "is_space CHR '' ''"
  by (simp add: is_space_def)

lemma strip_rstrip: "strip s = rev (dropWhile is_space (rev (dropWhile is_space s)))"
  by (simp add: strip_def)

lemma rstrip_Cons:
  "rev (dropWhile is_space (rev (a # x))) =
     (if rev (dropWhile is_space (rev x)) = [] \<and> is_space a then []
      else a # rev (dropWhile is_space (rev x)))"
  by (simp add: dropWhile_append dropWhile_eq_Nil_conv)

lemma collapse_ws_no_leading_space:
  "t = [] \<or> \<not> is_space (hd t) \<Longrightarrow> dropWhile is_space (collapse_ws t) = collapse_ws t"
  by (cases t) auto

lemma dropWhile_collapse_ws:
  "dropWhile is_space (collapse_ws s) = collapse_ws (dropWhile is_space s)"
proof (cases s)
  case Nil
  then show ?thesis by simp
next
  case (Cons c cs)
  show ?thesis
  proof (cases "is_space c")
    case True
    have "dropWhile is_space cs = [] \<or> \<not> is_space (hd (dropWhile is_space cs))"
      by (metis hd_dropWhile)
    from collapse_ws_no_leading_space[OF this] True Cons show ?thesis by simp
  next
    case False
    with Cons show ?thesis by simp
  qed
qed

lemma rstrip_collapse_ws_trailing:
  assumes "list_all is_space ws"
  shows "rev (dropWhile is_space (rev (collapse_ws (s @ ws)))) =
         rev (dropWhile is_space (rev (collapse_ws s)))"
proof (induction s rule: collapse_ws.induct)
  case 1
  show ?case
  proof (cases "ws = []")
    case True
    then show ?thesis by simp
  next
    case False
    from collapse_ws_run[OF False assms, of "[]"] show ?thesis by simp
  qed
next
  case (2 c cs)
  show ?case
  proof (cases "is_space c")
    case False
    from 2(2)[OF False]
    have ih: "rev (dropWhile is_space (rev (collapse_ws (cs @ ws)))) =
              rev (dropWhile is_space (rev (collapse_ws cs)))" .
    from False have "collapse_ws ((c # cs) @ ws) = c # collapse_ws (cs @ ws)"
                    "collapse_ws (c # cs) = c # collapse_ws cs"
      by simp_all
    then show ?thesis by (simp only: rstrip_Cons ih)
  next
    case True
    note sp = True
    show ?thesis
    proof (cases "list_all is_space cs")
      case True
      with assms have e: "dropWhile is_space (cs @ ws) = []" "dropWhile is_space cs = []"
        by (simp_all add: dropWhile_eq_Nil_conv list_all_iff)
      from sp show ?thesis
        by (simp only: append_Cons collapse_ws.simps if_True e)
    next
      case False
      then have d: "dropWhile is_space (cs @ ws) = dropWhile is_space cs @ ws"
        by (auto simp: list_all_iff dropWhile_append1)
      from 2(1)[OF sp]
      have ih: "rev (dropWhile is_space (rev (collapse_ws (dropWhile is_space cs @ ws)))) =
                rev (dropWhile is_space (rev (collapse_ws (dropWhile is_space cs))))" .
      from sp d have "collapse_ws ((c # cs) @ ws) = CHR '' '' # collapse_ws (dropWhile is_space cs @ ws)"
                     "collapse_ws (c # cs) = CHR '' '' # collapse_ws (dropWhile is_space cs)"
        by simp_all
      then show ?thesis by (simp only: rstrip_Cons ih)
    qed
  qed
qed

lemma strip_collapse_ws_outer:
  assumes "list_all is_space ws" "list_all is_space ws'"
  shows "strip (collapse_ws (ws @ s @ ws')) = strip (collapse_ws s)"
proof -
  have lead: "dropWhile is_space (ws @ s @ ws') = dropWhile is_space (s @ ws')"
    using assms(1) by (simp add: dropWhile_append2 list_all_iff)
  have "strip (collapse_ws (ws @ s @ ws')) =
        rev (dropWhile is_space (rev (collapse_ws (dropWhile is_space (s @ ws')))))"
    by (simp add: strip_rstrip dropWhile_collapse_ws lead)
  also have "\<dots> = rev (dropWhile is_space (rev (collapse_ws (dropWhile is_space s))))"
  proof (cases "list_all is_space s")
    case True
    with assms(2) have e: "dropWhile is_space (s @ ws') = []" "dropWhile is_space s = []"
      by (simp_all add: dropWhile_eq_Nil_conv list_all_iff)
    show ?thesis unfolding e by (rule refl)
  next
    case False
    then have "dropWhile is_space (s @ ws') = dropWhile is_space s @ ws'"
      by (auto simp: list_all_iff dropWhile_append1)
    then show ?thesis by (simp add: rstrip_collapse_ws_trailing[OF assms(2)])
  qed
  also have "\<dots> = strip (collapse_ws s)"
    by (simp add: strip_rstrip dropWhile_collapse_ws)
  finally show ?thesis .
qed

lemma COLUMN_MAP_distinct: "distinct (map fst COLUMN_MAP)"
  by code_simp

lemma COLUMN_MAP_keys_clean:
  "list_all (\<lambda>kv. lower (strip (collapse_ws (fst kv))) = fst kv) COLUMN_MAP"
  by code_simp

lemma rename_alias: "(k, v) \<in> set COLUMN_MAP \<Longrightarrow> rename COLUMN_MAP k = v"
  by (simp add: rename_def map_of_is_SomeI[OF COLUMN_MAP_distinct])

lemma clean_name_Str: "clean_name rt (Str s) = strip (collapse_ws (lower s))"
  by (simp add: clean_name_def clean_via_lower)

text \<open>
  C2.  Every key of the alias table is its own cleaned form and is renamed to its
  canonical name, so any label whose cleaned form is the key \<open>k\<close> of an entry
  \<open>(k, v)\<close> is renamed to \<open>v\<close>; a label whose cleaned form is no key keeps its
  cleaned form.  The cleaned form of a text label depends neither on the case of
  its letters, nor on whitespace at its ends, nor on which non-empty run of
  whitespace characters separates two of its parts.  \<open>clean_column_names\<close> applies
  this to every label and leaves the index and the values alone.
\<close>

theorem clean_column_names_alias:
  "(\<forall>(k, v) \<in> set COLUMN_MAP.
      clean_name rt (Str k) = k \<and>
      (\<forall>col. clean_name rt col = k \<longrightarrow> rename COLUMN_MAP (clean_name rt col) = v)) \<and>
   (map_of COLUMN_MAP (clean_name rt col) = None \<longrightarrow>
      rename COLUMN_MAP (clean_name rt col) = clean_name rt col) \<and>
   (lower s = lower t \<longrightarrow> clean_name rt (Str s) = clean_name rt (Str t)) \<and>
   (list_all is_space ws \<and> list_all is_space ws' \<longrightarrow>
      clean_name rt (Str (ws @ s @ ws')) = clean_name rt (Str s)) \<and>
   (ws \<noteq> [] \<and> list_all is_space ws \<and> ws' \<noteq> [] \<and> list_all is_space ws' \<longrightarrow>
      clean_name rt (Str (a @ ws @ b)) = clean_name rt (Str (a @ ws' @ b))) \<and>
   labels (clean_column_names rt df COLUMN_MAP) =
     map (\<lambda>l. rename COLUMN_MAP (clean_name rt l)) (labels df) \<and>
   map snd (cols (clean_column_names rt df COLUMN_MAP)) = map snd (cols df) \<and>
   nrows (clean_column_names rt df COLUMN_MAP) = nrows df"
proof -
  have A: "\<forall>(k, v) \<in> set COLUMN_MAP.
      clean_name rt (Str k) = k \<and>
      (\<forall>col. clean_name rt col = k \<longrightarrow> rename COLUMN_MAP (clean_name rt col) = v)"
  proof (clarify, intro conjI allI impI)
    fix k v assume kv: "(k, v) \<in> set COLUMN_MAP"
    with COLUMN_MAP_keys_clean have "lower (strip (collapse_ws k)) = k"
      by (auto simp: list_all_iff)
    then show "clean_name rt (Str k) = k" by (simp add: clean_name_def)
    fix col assume "clean_name rt col = k"
    with rename_alias[OF kv] show "rename COLUMN_MAP (clean_name rt col) = v" by simp
  qed
  have B: "map_of COLUMN_MAP (clean_name rt col) = None \<longrightarrow>
      rename COLUMN_MAP (clean_name rt col) = clean_name rt col"
    by (simp add: rename_def)
  have C: "lower s = lower t \<longrightarrow> clean_name rt (Str s) = clean_name rt (Str t)"
    by (simp add: clean_name_Str)
  have s1: "list_all is_space (lower ws)" if "list_all is_space ws" for ws
    using that by (simp add: lower_def list_all_iff)
  have D: "list_all is_space ws \<and> list_all is_space ws' \<longrightarrow>
      clean_name rt (Str (ws @ s @ ws')) = clean_name rt (Str s)"
  proof
    assume h: "list_all is_space ws \<and> list_all is_space ws'"
    have "lower (ws @ s @ ws') = lower ws @ lower s @ lower ws'" by (simp add: lower_def)
    with strip_collapse_ws_outer[OF s1 s1, of ws ws' "lower s"] h
    show "clean_name rt (Str (ws @ s @ ws')) = clean_name rt (Str s)"
      by (simp add: clean_name_Str)
  qed
  have E: "ws \<noteq> [] \<and> list_all is_space ws \<and> ws' \<noteq> [] \<and> list_all is_space ws' \<longrightarrow>
      clean_name rt (Str (a @ ws @ b)) = clean_name rt (Str (a @ ws' @ b))"
  proof
    assume h: "ws \<noteq> [] \<and> list_all is_space ws \<and> ws' \<noteq> [] \<and> list_all is_space ws'"
    then have n: "lower ws \<noteq> []" "lower ws' \<noteq> []" by (simp_all add: lower_def)
    have l: "lower (a @ x @ b) = lower a @ lower x @ lower b" for x by (simp add: lower_def)
    from h have "collapse_ws (lower a @ lower ws @ lower b) = collapse_ws (lower a @ lower ws' @ lower b)"
      by (intro collapse_ws_inner_run n s1) simp_all
    then show "clean_name rt (Str (a @ ws @ b)) = clean_name rt (Str (a @ ws' @ b))"
      by (simp add: clean_name_Str l)
  qed
  have F: "labels (clean_column_names rt df COLUMN_MAP) =
      map (\<lambda>l. rename COLUMN_MAP (clean_name rt l)) (labels df)"
    "map snd (cols (clean_column_names rt df COLUMN_MAP)) = map snd (cols df)"
    "nrows (clean_column_names rt df COLUMN_MAP) = nrows df"
    by (simp_all add: clean_column_names_def labels_def comp_def)
  from A B C D E F show ?thesis by (intro conjI)
qed

theorem clean_column_names_alias_witness:
  "rename COLUMN_MAP (clean_name sample_runtime (Str ''Tax Class At Present'')) =
     ''tax_class_at_present'' \<and>
   rename COLUMN_MAP (clean_name sample_runtime
       (Str (''  TAX CLASS'' @ [CHR 0x0A] @ ''AS OF  FINAL ROLL 18/19 ''))) =
     ''tax_class_at_present''"
proof -
  note T = clean_column_names_alias[where rt = sample_runtime, THEN conjunct1]
  have m1: "(''tax class at present'', ''tax_class_at_present'') \<in> set COLUMN_MAP"
    by (simp add: COLUMN_MAP_def)
  have m2: "(''tax class as of final roll 18/19'', ''tax_class_at_present'') \<in> set COLUMN_MAP"
    by (simp add: COLUMN_MAP_def)
  have c1: "clean_name sample_runtime (Str ''Tax Class At Present'') = ''tax class at present''"
    by code_simp
  have c2: "clean_name sample_runtime
      (Str (''  TAX CLASS'' @ [CHR 0x0A] @ ''AS OF  FINAL ROLL 18/19 '')) =
      ''tax class as of final roll 18/19''"
    by code_simp
  from bspec[OF T m1] have r1: "\<forall>col. clean_name sample_runtime col = ''tax class at present'' \<longrightarrow>
      rename COLUMN_MAP (clean_name sample_runtime col) = ''tax_class_at_present''"
    by (simp only: split_conv) (rule conjunct2)
  from bspec[OF T m2] have r2: "\<forall>col. clean_name sample_runtime col = ''tax class as of final roll 18/19'' \<longrightarrow>
      rename COLUMN_MAP (clean_name sample_runtime col) = ''tax_class_at_present''"
    by (simp only: split_conv) (rule conjunct2)
  from r1[THEN spec, THEN mp, OF c1] r2[THEN spec, THEN mp, OF c2]
  show ?thesis by (rule conjI)
qed

subsection \<open>The per-file pipeline\<close>

lemma CANONICAL_COLUMNS_distinct: "distinct CANONICAL_COLUMNS"
  by code_simp

lemma numeric_cols_distinct: "distinct numeric_cols"
  by code_simp

lemma numeric_cols_canonical: "set numeric_cols \<subseteq> set CANONICAL_COLUMNS"
  by code_simp

lemma sale_date_canonical: "''sale_date'' \<in> set CANONICAL_COLUMNS"
  by code_simp

lemma sale_date_not_numeric: "''sale_date'' \<notin> set numeric_cols"
  by code_simp

lemma labels_setitem_new:
  "key \<notin> set (labels df) \<Longrightarrow> labels (setitem df key vs) = labels df @ [key]"
  by (simp add: setitem_def labels_def)

lemma ensure_columns_shape:
  "distinct cs \<Longrightarrow>
   nrows (ensure_columns cs df) = nrows df \<and>
   cols (ensure_columns cs df) =
     cols df @ map (\<lambda>c. (c, replicate (nrows df) PyNone)) (filter (\<lambda>c. c \<notin> set (labels df)) cs)"
proof (induction cs arbitrary: df)
  case Nil
  show ?case by simp
next
  case (Cons c cs)
  then have d: "distinct cs" and nc: "c \<notin> set cs" by simp_all
  show ?case
  proof (cases "c \<in> set (labels df)")
    case True
    with Cons.IH[OF d, of df] show ?thesis by simp
  next
    case False
    let ?df = "setitem df c (replicate (nrows df) PyNone)"
    have l: "labels ?df = labels df @ [c]" using False by (rule labels_setitem_new)
    have f: "filter (\<lambda>x. x \<notin> set (labels ?df)) cs = filter (\<lambda>x. x \<notin> set (labels df)) cs"
      using nc by (auto simp: l intro!: filter_cong)
    have n: "nrows ?df = nrows df" by (simp add: setitem_def)
    have c: "cols ?df = cols df @ [(c, replicate (nrows df) PyNone)]"
      using False by (simp add: setitem_def)
    from Cons.IH[OF d, of ?df] False show ?thesis by (simp add: f n c)
  qed
qed

lemma unique_label_filter:
  assumes "distinct (filter P (map fst xs))" "P k" "(k, v) \<in> set xs"
  shows "filter (\<lambda>lc. fst lc = k) xs = [(k, v)]"
  using assms
proof (induction xs)
  case Nil
  then show ?case by simp
next
  case (Cons x xs)
  show ?case
  proof (cases "fst x = k")
    case True
    with Cons.prems have nk: "k \<notin> fst ` set xs" by auto
    then have "filter (\<lambda>lc. fst lc = k) xs = []" by (auto simp: filter_empty_conv)
    moreover from nk Cons.prems(3) True have "x = (k, v)" by (cases x) force
    ultimately show ?thesis by simp
  next
    case False
    with Cons show ?thesis by (auto split: if_splits)
  qed
qed

lemma filter_eq_singleton: "distinct fs \<Longrightarrow> c \<in> set fs \<Longrightarrow> filter (\<lambda>f. f = c) fs = [c]"
  by (induction fs) (auto simp: filter_empty_conv)

lemma labels_frame_of [simp]: "labels (frame_of n fs g) = fs"
  by (simp add: frame_of_def labels_def comp_def)

lemma getitem_frame_of:
  assumes "distinct fs" "c \<in> set fs"
  shows "getitem (frame_of n fs g) c = Inr (Series (g c))"
proof -
  have "filter (\<lambda>lc. fst lc = c) (map (\<lambda>f. (f, g f)) fs) = map (\<lambda>f. (f, g f)) (filter (\<lambda>f. f = c) fs)"
    by (simp add: filter_map comp_def)
  with filter_eq_singleton[OF assms] show ?thesis
    by (simp add: getitem_def frame_of_def)
qed

lemma setitem_frame_of:
  assumes "c \<in> set fs"
  shows "setitem (frame_of n fs g) c vs = frame_of n fs (g(c := vs))"
proof -
  have "c \<in> set (labels (frame_of n fs g))" using assms by simp
  then show ?thesis
    by (simp add: setitem_def) (simp add: frame_of_def)
qed

lemma coerce_numeric_frame_of:
  assumes "distinct fs" "c \<in> set fs"
  shows "coerce_numeric rt (frame_of n fs g) c =
         Inr (frame_of n fs (g(c := map (to_numeric_value rt) (g c))))"
  by (simp add: coerce_numeric_def getitem_frame_of[OF assms] to_numeric_def
      setitem_frame_of[OF assms(2)])

lemma coerce_datetime_frame_of:
  assumes "distinct fs" "c \<in> set fs"
  shows "coerce_datetime rt (frame_of n fs g) c =
         Inr (frame_of n fs (g(c := map (to_datetime_value rt) (g c))))"
  by (simp add: coerce_datetime_def getitem_frame_of[OF assms] to_datetime_def
      setitem_frame_of[OF assms(2)])

lemma coerce_numeric_cols_frame_of:
  assumes "distinct fs"
  shows "distinct cs \<Longrightarrow> set cs \<subseteq> set fs \<Longrightarrow>
         coerce_numeric_cols rt cs (frame_of n fs g) =
         Inr (frame_of n fs (\<lambda>f. if f \<in> set cs then map (to_numeric_value rt) (g f) else g f))"
proof (induction cs arbitrary: g)
  case Nil
  show ?case by simp
next
  case (Cons c cs)
  then have c: "c \<in> set fs" and d: "distinct cs" and s: "set cs \<subseteq> set fs" and nc: "c \<notin> set cs"
    by simp_all
  let ?g = "g(c := map (to_numeric_value rt) (g c))"
  have e: "(\<lambda>f. if f \<in> set cs then map (to_numeric_value rt) (?g f) else ?g f) =
        (\<lambda>f. if f \<in> set (c # cs) then map (to_numeric_value rt) (g f) else g f)"
    using nc by (auto simp: fun_eq_iff)
  have "coerce_numeric_cols rt (c # cs) (frame_of n fs g) =
        coerce_numeric_cols rt cs (frame_of n fs ?g)"
    by (simp add: coerce_numeric_frame_of[OF assms c])
  also have "\<dots> = Inr (frame_of n fs
      (\<lambda>f. if f \<in> set cs then map (to_numeric_value rt) (?g f) else ?g f))"
    by (rule Cons.IH[OF d s])
  also have "\<dots> = Inr (frame_of n fs
      (\<lambda>f. if f \<in> set (c # cs) then map (to_numeric_value rt) (g f) else g f))"
    by (simp only: e)
  finally show ?case .
qed

lemma map_of_unique:
  "filter (\<lambda>lc. fst lc = k) xs = [(k, v)] \<Longrightarrow> map_of xs k = Some v"
proof (induction xs)
  case Nil
  then show ?case by simp
next
  case (Cons x xs)
  then show ?case by (cases x) (auto split: if_splits)
qed

lemma canon_labels_cols:
  "map fst (cols (clean_column_names rt raw COLUMN_MAP)) = canon_labels rt raw"
  by (simp add: clean_column_names_def canon_labels_def labels_def comp_def)

lemma ensured_field_column:
  assumes u: "unique_fields rt raw" and f: "f \<in> set CANONICAL_COLUMNS"
  shows "filter (\<lambda>lc. fst lc = f)
           (cols (ensure_columns CANONICAL_COLUMNS (clean_column_names rt raw COLUMN_MAP))) =
         [(f, source_column rt raw f)]"
proof -
  let ?df0 = "clean_column_names rt raw COLUMN_MAP"
  let ?cols0 = "cols ?df0"
  let ?L = "filter (\<lambda>c. c \<notin> set (labels ?df0)) CANONICAL_COLUMNS"
  let ?added = "map (\<lambda>c. (c, replicate (nrows ?df0) PyNone)) ?L"
  have n: "nrows ?df0 = nrows raw" by (simp add: clean_column_names_def)
  have l0: "labels ?df0 = canon_labels rt raw"
    by (simp add: labels_def canon_labels_cols)
  have cols1: "cols (ensure_columns CANONICAL_COLUMNS ?df0) = ?cols0 @ ?added"
    using ensure_columns_shape[OF CANONICAL_COLUMNS_distinct, of ?df0] by simp
  have fa: "filter (\<lambda>lc. fst lc = f) ?added =
            map (\<lambda>c. (c, replicate (nrows ?df0) PyNone)) (filter (\<lambda>c. c = f) ?L)"
    by (simp add: filter_map comp_def)
  have dL: "distinct ?L" using CANONICAL_COLUMNS_distinct by simp
  show ?thesis
  proof (cases "f \<in> set (labels ?df0)")
    case True
    then obtain v where v: "(f, v) \<in> set ?cols0" by (auto simp: labels_def)
    from u have "distinct (filter (\<lambda>l. l \<in> set CANONICAL_COLUMNS) (map fst ?cols0))"
      by (simp add: unique_fields_def canon_labels_cols)
    from unique_label_filter[OF this f v]
    have f0: "filter (\<lambda>lc. fst lc = f) ?cols0 = [(f, v)]" .
    from True have "filter (\<lambda>c. c = f) ?L = []" by (auto simp: filter_empty_conv)
    with fa have f1: "filter (\<lambda>lc. fst lc = f) ?added = []" by simp
    from map_of_unique[OF f0] have "source_column rt raw f = v"
      by (simp add: source_column_def)
    with f0 f1 cols1 show ?thesis by simp
  next
    case False
    then have f0: "filter (\<lambda>lc. fst lc = f) ?cols0 = []"
      by (auto simp: filter_empty_conv labels_def)
    from False f have "f \<in> set ?L" by simp
    from filter_eq_singleton[OF dL this] fa
    have f1: "filter (\<lambda>lc. fst lc = f) ?added = [(f, replicate (nrows ?df0) PyNone)]" by simp
    from False have "map_of ?cols0 f = None"
      by (simp add: map_of_eq_None_iff labels_def)
    then have "source_column rt raw f = replicate (nrows raw) PyNone"
      by (simp add: source_column_def)
    with f0 f1 cols1 n show ?thesis by simp
  qed
qed

lemma getitem_list_canonical:
  assumes u: "unique_fields rt raw"
  shows "getitem_list (ensure_columns CANONICAL_COLUMNS (clean_column_names rt raw COLUMN_MAP))
           CANONICAL_COLUMNS =
         Inr (frame_of (nrows raw) CANONICAL_COLUMNS (source_column rt raw))"
proof -
  let ?df1 = "ensure_columns CANONICAL_COLUMNS (clean_column_names rt raw COLUMN_MAP)"
  have n: "nrows ?df1 = nrows raw"
    using ensure_columns_shape[OF CANONICAL_COLUMNS_distinct, of "clean_column_names rt raw COLUMN_MAP"]
    by (simp add: clean_column_names_def)
  have present: "k \<in> set (labels ?df1)" if "k \<in> set CANONICAL_COLUMNS" for k
  proof -
    from ensured_field_column[OF u that]
    have "(k, source_column rt raw k) \<in> set (filter (\<lambda>lc. fst lc = k) (cols ?df1))" by simp
    then have "(k, source_column rt raw k) \<in> set (cols ?df1)" by simp
    then show ?thesis by (force simp: labels_def)
  qed
  have "map (\<lambda>k. filter (\<lambda>lc. fst lc = k) (cols ?df1)) CANONICAL_COLUMNS =
        map (\<lambda>k. [(k, source_column rt raw k)]) CANONICAL_COLUMNS"
    by (rule map_cong[OF refl]) (rule ensured_field_column[OF u])
  then have "concat (map (\<lambda>k. filter (\<lambda>lc. fst lc = k) (cols ?df1)) CANONICAL_COLUMNS) =
        map (\<lambda>k. (k, source_column rt raw k)) CANONICAL_COLUMNS"
    by (simp only:) (induction CANONICAL_COLUMNS, simp_all)
  with present n show ?thesis
    by (simp add: getitem_list_def list_all_iff frame_of_def)
qed

lemma coerce_cell_text:
  "f \<notin> set numeric_cols \<Longrightarrow> f \<noteq> ''sale_date'' \<Longrightarrow> map (coerce_cell rt f) vs = vs"
  by (induction vs) (simp_all add: coerce_cell_def)

lemma coerce_cell_numeric:
  "f \<in> set numeric_cols \<Longrightarrow> map (coerce_cell rt f) vs = map (to_numeric_value rt) vs"
  by (induction vs) (simp_all add: coerce_cell_def)

lemma coerce_cell_date:
  "map (coerce_cell rt ''sale_date'') vs = map (to_datetime_value rt) vs"
  using sale_date_not_numeric by (induction vs) (simp_all add: coerce_cell_def)


lemma canonical_table_unique:
  assumes u: "unique_fields rt raw"
  shows "canonical_table rt raw =
         Inr (frame_of (nrows raw) CANONICAL_COLUMNS
                (\<lambda>f. map (coerce_cell rt f) (source_column rt raw f)))"
proof -
  let ?sc = "source_column rt raw"
  let ?g1 = "\<lambda>f. if f \<in> set numeric_cols then map (to_numeric_value rt) (?sc f) else ?sc f"
  have n: "coerce_numeric_cols rt numeric_cols (frame_of (nrows raw) CANONICAL_COLUMNS ?sc) =
           Inr (frame_of (nrows raw) CANONICAL_COLUMNS ?g1)"
    by (rule coerce_numeric_cols_frame_of[OF CANONICAL_COLUMNS_distinct numeric_cols_distinct
          numeric_cols_canonical])
  have d: "coerce_datetime rt (frame_of (nrows raw) CANONICAL_COLUMNS ?g1) ''sale_date'' =
           Inr (frame_of (nrows raw) CANONICAL_COLUMNS
                  (?g1(''sale_date'' := map (to_datetime_value rt) (?g1 ''sale_date''))))"
    by (rule coerce_datetime_frame_of[OF CANONICAL_COLUMNS_distinct sale_date_canonical])
  have e: "?g1(''sale_date'' := map (to_datetime_value rt) (?g1 ''sale_date'')) =
           (\<lambda>f. map (coerce_cell rt f) (?sc f))"
    using sale_date_not_numeric
    by (auto simp: fun_eq_iff coerce_cell_text coerce_cell_numeric coerce_cell_date)
  show ?thesis
    unfolding canonical_table_def Let_def getitem_list_canonical[OF u]
    by (simp only: sum.case n d e)
qed


lemma labels_dropna_all [simp]: "labels (dropna_all df) = labels df"
  by (simp add: dropna_all_def labels_def comp_def Let_def)





lemma sample_table_unique: "unique_fields sample_runtime sample_table"
  by code_simp



lemma rows_dropna_all:
  "map (row_at (dropna_all df)) [0 ..< nrows (dropna_all df)] =
   filter (\<lambda>r. \<not> list_all isna r) (map (row_at df) [0 ..< nrows df])"
proof -
  let ?keep = "kept_rows df"
  have r: "row_at (dropna_all df) j = row_at df (?keep ! j)" if "j < length ?keep" for j
    using that by (simp add: row_at_def dropna_all_def Let_def comp_def)
  have n: "nrows (dropna_all df) = length ?keep"
    by (simp add: dropna_all_def Let_def)
  have "map (row_at (dropna_all df)) [0 ..< nrows (dropna_all df)] =
        map (\<lambda>j. row_at df (?keep ! j)) [0 ..< length ?keep]"
    using r by (simp add: n)
  also have "\<dots> = map (row_at df) (map ((!) ?keep) [0 ..< length ?keep])"
    by (simp add: comp_def)
  also have "\<dots> = map (row_at df) ?keep"
    by (simp only: map_nth)
  also have "\<dots> = filter (\<lambda>r. \<not> list_all isna r) (map (row_at df) [0 ..< nrows df])"
    by (simp add: kept_rows_def filter_map comp_def)
  finally show ?thesis .
qed

text \<open>
  C4.  Whenever the pipeline returns a table, its rows are, in order, exactly those
  rows of the table that reached \<open>dropna\<close> (the selected and coerced table) in which
  not every field is missing: a row with every field missing is removed, every
  other row is kept, and the columns are unchanged.
\<close>

theorem dropna_removes_empty_rows:
  assumes "standardize rt raw = Inr out"
  shows "\<exists>pre. canonical_table rt raw = Inr pre \<and> out = dropna_all pre \<and>
           labels out = labels pre \<and>
           map (row_at out) [0 ..< nrows out] =
             filter (\<lambda>r. \<not> list_all isna r) (map (row_at pre) [0 ..< nrows pre])"
proof (cases "canonical_table rt raw")
  case (Inl x)
  with assms show ?thesis by (simp add: standardize_def)
next
  case (Inr pre)
  with assms have o: "out = dropna_all pre" by (simp add: standardize_def)
  show ?thesis
    by (rule exI[of _ pre]) (simp add: Inr o rows_dropna_all)
qed

lemma sample_table_standardize:
  "standardize sample_runtime sample_table =
   Inr (dropna_all (frame_of (nrows sample_table) CANONICAL_COLUMNS
     (\<lambda>f. map (coerce_cell sample_runtime f) (source_column sample_runtime sample_table f))))"
  by (simp add: standardize_def canonical_table_unique[OF sample_table_unique])

theorem dropna_removes_empty_rows_witness:
  "map_sum id nrows (canonical_table sample_runtime sample_table) = Inr 2 \<and>
   map_sum id nrows (standardize sample_runtime sample_table) = Inr 1 \<and>
   (\<exists>out pre. standardize sample_runtime sample_table = Inr out \<and>
      canonical_table sample_runtime sample_table = Inr pre \<and>
      map (row_at out) [0 ..< nrows out] =
        filter (\<lambda>r. \<not> list_all isna r) (map (row_at pre) [0 ..< nrows pre]))"
proof -
  have a: "map_sum id nrows (canonical_table sample_runtime sample_table) = Inr 2"
    by code_simp
  have b: "map_sum id nrows (standardize sample_runtime sample_table) = Inr 1"
    by code_simp
  from dropna_removes_empty_rows[OF sample_table_standardize]
  obtain pre where p:
    "canonical_table sample_runtime sample_table = Inr pre \<and>
     dropna_all (frame_of (nrows sample_table) CANONICAL_COLUMNS
       (\<lambda>f. map (coerce_cell sample_runtime f) (source_column sample_runtime sample_table f))) =
       dropna_all pre \<and>
     labels (dropna_all (frame_of (nrows sample_table) CANONICAL_COLUMNS
       (\<lambda>f. map (coerce_cell sample_runtime f) (source_column sample_runtime sample_table f)))) =
       labels pre \<and>
     map (row_at (dropna_all (frame_of (nrows sample_table) CANONICAL_COLUMNS
       (\<lambda>f. map (coerce_cell sample_runtime f) (source_column sample_runtime sample_table f)))))
       [0 ..< nrows (dropna_all (frame_of (nrows sample_table) CANONICAL_COLUMNS
       (\<lambda>f. map (coerce_cell sample_runtime f) (source_column sample_runtime sample_table f))))] =
       filter (\<lambda>r. \<not> list_all isna r) (map (row_at pre) [0 ..< nrows pre])"
    by (rule exE)
  note p1 = p[THEN conjunct1]
  note p4 = p[THEN conjunct2, THEN conjunct2, THEN conjunct2]
  have c: "\<exists>out pre. standardize sample_runtime sample_table = Inr out \<and>
      canonical_table sample_runtime sample_table = Inr pre \<and>
      map (row_at out) [0 ..< nrows out] =
        filter (\<lambda>r. \<not> list_all isna r) (map (row_at pre) [0 ..< nrows pre])"
    by (rule exI, rule exI[of _ pre], rule conjI[OF sample_table_standardize conjI[OF p1 p4]])
  show ?thesis by (rule conjI[OF a conjI[OF b c]])
qed





















end
